theory Spec2Isabelle
  imports
    Complex_Main
    "HOL-Library.Multiset"
    "HOL-Library.Char_ord"
    "HOL-Library.List_Lexorder"
begin

section \<open>Paths\<close>

text \<open>
  A \<^verbatim>\<open>pathlib.Path\<close> is modelled by its tuple of parts. Python orders paths by that
  tuple (on POSIX), which is the lexicographic order on lists of strings; strings are
  ordered by code point, here by byte.
\<close>

type_synonym path = "string list"

definition name :: "path \<Rightarrow> string" where
  "name p = (if p = [] then [] else last p)"

text \<open>\<^verbatim>\<open>str.rfind\<close> of one character: the index of its last occurrence, or -1.\<close>

definition rfind :: "char \<Rightarrow> string \<Rightarrow> int" where
  "rfind c s =
     (if c \<in> set s
      then int (length s) - 1 - int (length (takeWhile (\<lambda>x. x \<noteq> c) (rev s)))
      else - 1)"

text \<open>
  \<^verbatim>\<open>PurePath.suffix\<close> and \<^verbatim>\<open>PurePath.stem\<close>: the name is cut at its last dot, unless
  that dot is the first or the last character.
\<close>

definition suffix :: "path \<Rightarrow> string" where
  "suffix p =
     (let n = name p; i = rfind CHR ''.'' n
      in if 0 < i \<and> i < int (length n) - 1 then drop (nat i) n else [])"

definition stem :: "path \<Rightarrow> string" where
  "stem p =
     (let n = name p; i = rfind CHR ''.'' n
      in if 0 < i \<and> i < int (length n) - 1 then take (nat i) n else n)"

text \<open>\<^verbatim>\<open>path / child\<close> for a child that is a single relative part.\<close>

definition join :: "path \<Rightarrow> string \<Rightarrow> path" where
  "join p child = p @ [child]"

text \<open>
  \<^verbatim>\<open>PurePath.with_suffix\<close>. Python raises ValueError on a path with an empty name;
  the source calls it only on paths that end in a literal part.
\<close>

definition with_suffix :: "path \<Rightarrow> string \<Rightarrow> path option" where
  "with_suffix p s = (if name p = [] then None else Some (butlast p @ [stem p @ s]))"

text \<open>\<^verbatim>\<open>str.lower\<close> on ASCII letters; other bytes are unchanged.\<close>

definition lower_char :: "char \<Rightarrow> char" where
  "lower_char c =
     (let n = (of_char c :: nat) in if 65 \<le> n \<and> n \<le> 90 then char_of (n + 32) else c)"

definition lower :: "string \<Rightarrow> string" where
  "lower s = map lower_char s"

section \<open>Data model\<close>

record FileJob =
  input_path :: path
  output_path :: path
  display_name :: string

record FfmpegPaths =
  ffmpeg :: path
  ffprobe :: path

section \<open>Toolchain location\<close>

text \<open>
  What \<^verbatim>\<open>locate_ffmpeg\<close> reads from its surroundings: the platform name, which paths
  exist, and what \<^verbatim>\<open>shutil.which\<close> finds for a command name.
\<close>

record host =
  platform :: string
  path_exists :: "path \<Rightarrow> bool"
  which :: "string \<Rightarrow> string option"

definition startswith :: "string \<Rightarrow> string \<Rightarrow> bool" where
  "startswith s pre = (take (length pre) s = pre)"

text \<open>Truthiness of an optional string: \<^verbatim>\<open>None\<close> and the empty string are false.\<close>

definition truthy :: "string option \<Rightarrow> bool" where
  "truthy r = (case r of None \<Rightarrow> False | Some s \<Rightarrow> s \<noteq> [])"

text \<open>\<^verbatim>\<open>Path(text)\<close> for a text that \<^verbatim>\<open>shutil.which\<close> returned, kept as one part.\<close>

definition Path :: "string \<Rightarrow> path" where
  "Path s = [s]"

definition local_binary :: "host \<Rightarrow> path \<Rightarrow> string \<Rightarrow> path" where
  "local_binary h app_dir exe =
     (let p = join (join app_dir ''bin'') exe
      in if startswith (platform h) ''win''
         then (case with_suffix p ''.exe'' of Some q \<Rightarrow> q | None \<Rightarrow> p)
         else p)"

definition locate_ffmpeg :: "host \<Rightarrow> path \<Rightarrow> FfmpegPaths option" where
  "locate_ffmpeg h app_dir =
     (let local_ffmpeg = local_binary h app_dir ''ffmpeg'';
          local_ffprobe = local_binary h app_dir ''ffprobe''
      in if path_exists h local_ffmpeg \<and> path_exists h local_ffprobe
         then Some \<lparr>ffmpeg = local_ffmpeg, ffprobe = local_ffprobe\<rparr>
         else
           (let ffmpeg_path = which h ''ffmpeg''; ffprobe_path = which h ''ffprobe''
            in if truthy ffmpeg_path \<and> truthy ffprobe_path
               then Some \<lparr>ffmpeg = Path (the ffmpeg_path), ffprobe = Path (the ffprobe_path)\<rparr>
               else None))"

section \<open>Output names\<close>

text \<open>
  Python floats are modelled as reals. How a float is printed is not modelled: the
  formatting functions are parameters.
\<close>

record float_ops =
  fmt_g :: "real \<Rightarrow> string"
  fmt_2f :: "real \<Rightarrow> string"
  fmt_str :: "real \<Rightarrow> string"
  float_of :: "string \<Rightarrow> real option"

definition is_mp4 :: "path \<Rightarrow> bool" where
  "is_mp4 p = (lower (suffix p) = ''.mp4'')"

definition build_output_name :: "float_ops \<Rightarrow> path \<Rightarrow> real \<Rightarrow> bool \<Rightarrow> string" where
  "build_output_name F inp trim overwrite =
     (if overwrite then name inp
      else (let sfx = ''_trim'' @ fmt_g F trim @ ''s''
            in stem inp @ sfx @ suffix inp))"

section \<open>Discovery\<close>

text \<open>
  What \<^verbatim>\<open>_scan_files\<close> reads: whether the source directory exists, the entries that
  \<^verbatim>\<open>rglob\<close> and \<^verbatim>\<open>iterdir\<close> yield (in the order the operating system gives them) and
  which entries are regular files.
\<close>

record tree =
  source_exists :: bool
  rglob :: "path list"
  iterdir :: "path list"
  is_file :: "path \<Rightarrow> bool"

fun collect :: "(path \<Rightarrow> bool) \<Rightarrow> path list \<Rightarrow> path list \<Rightarrow> path list" where
  "collect isf [] files = files"
| "collect isf (p # ps) files =
     collect isf ps (if isf p \<and> is_mp4 p then files @ [p] else files)"

text \<open>The result is \<^verbatim>\<open>None\<close> when the source is missing: a warning and no new file list.\<close>

definition scan_files :: "tree \<Rightarrow> bool \<Rightarrow> path list option" where
  "scan_files t include_subfolders =
     (if \<not> source_exists t then None
      else Some (sort (collect (is_file t)
                   (if include_subfolders then rglob t else iterdir t) [])))"

section \<open>The worker\<close>

text \<open>
  The four Qt signals of \<^verbatim>\<open>Worker\<close>, and what a run does that can be observed: it
  emits signals, starts the two external programs, creates the output directory and, on
  cancellation, terminates the running trimmer.
\<close>

datatype signal =
  Progress nat string string
| Log string
| Overall nat nat
| Finished

datatype action =
  Emit signal
| RunFfprobe "string list"
| Mkdir path
| RunFfmpeg "string list"
| Terminate

datatype error = OSError string

text \<open>
  What the surroundings do during the iteration for one job: how the \<^verbatim>\<open>ffprobe\<close> call
  ends (it cannot be started, or it completes with some standard output), whether
  creating the output directory raises, whether the output file exists, how the
  \<^verbatim>\<open>ffmpeg\<close> call ends (it cannot be started, or it completes with a return code and
  its standard error), and whether the controlling thread calls \<^verbatim>\<open>cancel\<close> during this
  iteration: not at all, while no process is in flight, or while the trimmer runs. When
  the trimmer of the job is never started, \<open>CancelInFlight\<close> is a request at another
  moment of the iteration.
\<close>

datatype probe_run = ProbeOSError string | ProbeCompleted string

datatype trim_run = TrimOSError string | TrimCompleted int string

datatype cancel_point = NoCancel | CancelIdle | CancelInFlight

record job_world =
  probe_run :: probe_run
  mkdir_error :: "string option"
  output_exists :: bool
  trim_run :: trim_run
  cancel_at :: cancel_point

record Worker =
  jobs :: "FileJob list"
  trim_seconds :: real
  overwrite :: bool
  ffmpeg_paths :: FfmpegPaths

text \<open>
  The mutable part of a worker: \<^verbatim>\<open>_cancel\<close>, and whether \<^verbatim>\<open>_current_process\<close> is a
  process that has not exited yet.
\<close>

record worker_state =
  cancel_flag :: bool
  process_running :: bool

definition init_state :: worker_state where
  "init_state = \<lparr>cancel_flag = False, process_running = False\<rparr>"

definition cancel :: "worker_state \<Rightarrow> worker_state \<times> action list" where
  "cancel s =
     (s\<lparr>cancel_flag := True\<rparr>, if process_running s then [Terminate] else [])"

text \<open>\<^verbatim>\<open>str.strip\<close> with the ASCII white space characters.\<close>

definition is_space :: "char \<Rightarrow> bool" where
  "is_space c =
     (let n = (of_char c :: nat) in n = 32 \<or> (9 \<le> n \<and> n \<le> 13) \<or> (28 \<le> n \<and> n \<le> 31))"

definition strip :: "string \<Rightarrow> string" where
  "strip s = rev (dropWhile is_space (rev (dropWhile is_space s)))"

text \<open>\<^verbatim>\<open>str(path)\<close> and \<^verbatim>\<open>path.parent\<close>.\<close>

fun str_path :: "path \<Rightarrow> string" where
  "str_path [] = ''.''"
| "str_path [x] = x"
| "str_path (x # y # ys) = (if x = ''/'' then x else x @ ''/'') @ str_path (y # ys)"

definition parent :: "path \<Rightarrow> path" where
  "parent p = butlast p"

text \<open>The argument lists of the two external programs.\<close>

definition ffprobe_command :: "Worker \<Rightarrow> path \<Rightarrow> string list" where
  "ffprobe_command W inp =
     [str_path (ffprobe (ffmpeg_paths W)), ''-v'', ''error'', ''-show_entries'',
      ''format=duration'', ''-of'', ''default=noprint_wrappers=1:nokey=1'', str_path inp]"

definition ffmpeg_command :: "float_ops \<Rightarrow> Worker \<Rightarrow> FileJob \<Rightarrow> string list" where
  "ffmpeg_command F W job =
     [str_path (ffmpeg (ffmpeg_paths W)), ''-hide_banner'', ''-loglevel'', ''error'',
      (if overwrite W then ''-y'' else ''-n''), ''-ss'', fmt_str F (trim_seconds W),
      ''-i'', str_path (input_path job), ''-c'', ''copy'', ''-map'', ''0'',
      ''-avoid_negative_ts'', ''make_zero'', ''-movflags'', ''+faststart'',
      str_path (output_path job)]"

text \<open>The texts that the worker builds.\<close>

definition no_duration_text :: "path \<Rightarrow> string" where
  "no_duration_text inp = ''ffprobe returned no duration for '' @ str_path inp @ ''.''"

definition unparsed_text :: "string \<Rightarrow> path \<Rightarrow> string" where
  "unparsed_text duration_text inp =
     ''Could not parse duration '' @ [CHR 0x27] @ duration_text @ [CHR 0x27] @ '' for ''
     @ str_path inp @ ''.''"

definition short_message :: "float_ops \<Rightarrow> real \<Rightarrow> real \<Rightarrow> string" where
  "short_message F duration trim =
     ''Duration '' @ fmt_2f F duration @ ''s is shorter than trim '' @ fmt_2f F trim @ ''s''"

definition exists_message :: string where
  "exists_message = ''Output exists and overwrite is disabled''"

definition warning_text :: "path \<Rightarrow> string" where
  "warning_text inp = ''Warning: proceeding without duration info for '' @ str_path inp @ ''.''"

definition skipping_text :: "path \<Rightarrow> string \<Rightarrow> string" where
  "skipping_text p message = ''Skipping '' @ str_path p @ '': '' @ message"

definition error_text :: "string \<Rightarrow> string" where
  "error_text err = (if strip err \<noteq> [] then strip err else ''Unknown ffmpeg error'')"

definition failed_text :: "path \<Rightarrow> string \<Rightarrow> string" where
  "failed_text inp text = ''ffmpeg failed for '' @ str_path inp @ '': '' @ text"

definition probe_duration ::
  "float_ops \<Rightarrow> Worker \<Rightarrow> path \<Rightarrow> job_world \<Rightarrow> action list \<times> real option" where
  "probe_duration F W inp w =
     (case probe_run w of
        ProbeOSError exc \<Rightarrow>
          ([RunFfprobe (ffprobe_command W inp),
            Emit (Log (''Failed to run ffprobe: '' @ exc))], None)
      | ProbeCompleted out \<Rightarrow>
          (let duration_text = strip out
           in if duration_text = []
              then ([RunFfprobe (ffprobe_command W inp), Emit (Log (no_duration_text inp))],
                    None)
              else (case float_of F duration_text of
                      Some d \<Rightarrow> ([RunFfprobe (ffprobe_command W inp)], Some d)
                    | None \<Rightarrow>
                        ([RunFfprobe (ffprobe_command W inp),
                          Emit (Log (unparsed_text duration_text inp))], None))))"

text \<open>
  \<^verbatim>\<open>_run_ffmpeg\<close>. When \<^verbatim>\<open>Popen\<close> raises, nothing catches the exception. Otherwise the
  process handle is stored; a \<^verbatim>\<open>cancel\<close> that arrives while \<^verbatim>\<open>communicate\<close> waits
  finds the process running.
\<close>

definition run_ffmpeg ::
  "float_ops \<Rightarrow> Worker \<Rightarrow> FileJob \<Rightarrow> job_world \<Rightarrow> worker_state
     \<Rightarrow> action list \<times> worker_state \<times> (error + int \<times> string)" where
  "run_ffmpeg F W job w s =
     (case trim_run w of
        TrimOSError exc \<Rightarrow> ([RunFfmpeg (ffmpeg_command F W job)], s, Inl (OSError exc))
      | TrimCompleted returncode err \<Rightarrow>
          (let s1 = s\<lparr>process_running := True\<rparr>;
               (s2, ca) = (if cancel_at w = CancelInFlight then cancel s1 else (s1, []));
               s3 = s2\<lparr>process_running := False\<rparr>
           in (RunFfmpeg (ffmpeg_command F W job) # ca, s3, Inr (returncode, err))))"

text \<open>
  The body of the loop of \<^verbatim>\<open>Worker.run\<close> after the \<^verbatim>\<open>Processing\<close> signal, for the job
  with the one-based number \<open>index\<close>: first the part from the creation of the output
  directory on, then the whole body. The third component is the exception that leaves
  the loop, if any.
\<close>

definition trim_job ::
  "float_ops \<Rightarrow> Worker \<Rightarrow> nat \<Rightarrow> FileJob \<Rightarrow> job_world \<Rightarrow> worker_state
     \<Rightarrow> action list \<times> worker_state \<times> error option" where
  "trim_job F W index job w s =
     (case mkdir_error w of
        Some exc \<Rightarrow> ([Mkdir (parent (output_path job))], s, Some (OSError exc))
      | None \<Rightarrow>
          if output_exists w \<and> \<not> overwrite W
          then ([Mkdir (parent (output_path job)),
                 Emit (Progress (index - 1) ''Skipped'' exists_message),
                 Emit (Log (skipping_text (output_path job) exists_message))],
                s, None)
          else (case run_ffmpeg F W job w s of
                  (ta, s', Inl e) \<Rightarrow> (Mkdir (parent (output_path job)) # ta, s', Some e)
                | (ta, s', Inr (returncode, err)) \<Rightarrow>
                    if returncode \<noteq> 0
                    then (Mkdir (parent (output_path job)) # ta @
                          [Emit (Progress (index - 1) ''Failed'' (error_text err)),
                           Emit (Log (failed_text (input_path job) (error_text err)))],
                          s', None)
                    else (Mkdir (parent (output_path job)) # ta @
                          (if strip err \<noteq> [] then [Emit (Log (strip err))] else []) @
                          [Emit (Progress (index - 1) ''Done'' [])],
                          s', None)))"

definition process_job ::
  "float_ops \<Rightarrow> Worker \<Rightarrow> nat \<Rightarrow> FileJob \<Rightarrow> job_world \<Rightarrow> worker_state
     \<Rightarrow> action list \<times> worker_state \<times> error option" where
  "process_job F W index job w s =
     (case probe_duration F W (input_path job) w of
        (pa, Some duration) \<Rightarrow>
          if duration \<le> trim_seconds W + 1 / 100
          then (pa @ [Emit (Progress (index - 1) ''Skipped''
                              (short_message F duration (trim_seconds W))),
                      Emit (Log (skipping_text (input_path job)
                                   (short_message F duration (trim_seconds W))))],
                s, None)
          else (case trim_job F W index job w s of (ta, s', e) \<Rightarrow> (pa @ ta, s', e))
      | (pa, None) \<Rightarrow>
          (case trim_job F W index job w s of
             (ta, s', e) \<Rightarrow>
               (pa @ Emit (Log (warning_text (input_path job))) # ta, s', e)))"

text \<open>
  A cancellation request of this iteration that did not meet a running trimmer: it
  arrives at some other moment of the iteration, when no process is in flight. The flag
  is read again only at the head of the next iteration, so the moment does not matter.
\<close>

definition idle_cancel :: "job_world \<Rightarrow> worker_state \<Rightarrow> worker_state" where
  "idle_cancel w s =
     (if cancel_at w \<noteq> NoCancel \<and> \<not> cancel_flag s then fst (cancel s) else s)"

text \<open>
  The loop of \<^verbatim>\<open>Worker.run\<close>. The surroundings of the iteration with number \<open>index\<close>
  are \<open>env index\<close>.
\<close>

fun run_jobs ::
  "float_ops \<Rightarrow> Worker \<Rightarrow> nat \<Rightarrow> nat \<Rightarrow> FileJob list \<Rightarrow> (nat \<Rightarrow> job_world) \<Rightarrow> worker_state
     \<Rightarrow> action list \<times> worker_state \<times> error option" where
  "run_jobs F W tot index [] env s = ([], s, None)"
| "run_jobs F W tot index (job # rest) env s =
     (if cancel_flag s
      then ([Emit (Progress (index - 1) ''Canceled'' ''Canceled by user'')], s, None)
      else (case process_job F W index job (env index) s of
              (ja, s1, Some e) \<Rightarrow>
                (Emit (Overall index tot) # Emit (Progress (index - 1) ''Processing'' [])
                 # ja, s1, Some e)
            | (ja, s1, None) \<Rightarrow>
                (let s2 = idle_cancel (env index) s1
                 in case run_jobs F W tot (Suc index) rest env s2 of
                      (ra, s3, e) \<Rightarrow>
                        (Emit (Overall index tot)
                         # Emit (Progress (index - 1) ''Processing'' []) # ja @ ra,
                         s3, e))))"

text \<open>
  \<^verbatim>\<open>Worker.run\<close>, started in the state \<open>s\<close>: the initial state, or the initial state
  after a \<^verbatim>\<open>cancel\<close> that came before the loop began.
\<close>

definition run ::
  "float_ops \<Rightarrow> Worker \<Rightarrow> (nat \<Rightarrow> job_world) \<Rightarrow> worker_state
     \<Rightarrow> action list \<times> worker_state \<times> error option" where
  "run F W env s =
     (let tot = length (jobs W)
      in case run_jobs F W tot 1 (jobs W) env s of
           (la, s1, Some e) \<Rightarrow> (la, s1, Some e)
         | (la, s1, None) \<Rightarrow>
             (la @ [Emit (Overall tot tot), Emit Finished], s1, None))"

section \<open>The status column of the table\<close>

text \<open>
  \<^verbatim>\<open>_scan_files\<close> fills the status column with \<^verbatim>\<open>Pending\<close>; \<^verbatim>\<open>_update_progress\<close>
  overwrites the status of a row that exists.
\<close>

definition update_progress :: "string list \<Rightarrow> nat \<Rightarrow> string \<Rightarrow> string list" where
  "update_progress tbl row status = (if row < length tbl then tbl[row := status] else tbl)"

fun deliver :: "action \<Rightarrow> string list \<Rightarrow> string list" where
  "deliver (Emit (Progress row status message)) tbl = update_progress tbl row status"
| "deliver a tbl = tbl"

definition table_after :: "nat \<Rightarrow> action list \<Rightarrow> string list" where
  "table_after n acts = fold deliver acts (replicate n ''Pending'')"

text \<open>The statuses that a list of actions reports for one row, in order.\<close>

fun status_of :: "nat \<Rightarrow> action \<Rightarrow> string list" where
  "status_of r (Emit (Progress row status message)) = (if row = r then [status] else [])"
| "status_of r a = []"

definition row_statuses :: "action list \<Rightarrow> nat \<Rightarrow> string list" where
  "row_statuses acts r = concat (map (status_of r) acts)"

fun is_canceled :: "action \<Rightarrow> bool" where
  "is_canceled (Emit (Progress row status message)) = (status = ''Canceled'')"
| "is_canceled a = False"

fun is_trim :: "action \<Rightarrow> bool" where
  "is_trim (RunFfmpeg command) = True"
| "is_trim a = False"

definition terminal :: "string set" where
  "terminal = {''Skipped'', ''Failed'', ''Done''}"

section \<open>Notions used in the statements\<close>

text \<open>
  The pair of bundled binaries: \<^verbatim>\<open>bin/ffmpeg\<close> and \<^verbatim>\<open>bin/ffprobe\<close> under the
  application directory, with \<^verbatim>\<open>.exe\<close> on a platform whose name starts with \<^verbatim>\<open>win\<close>.
\<close>

definition bundled :: "host \<Rightarrow> path \<Rightarrow> FfmpegPaths" where
  "bundled h d =
     (let ext = (if startswith (platform h) ''win'' then ''.exe'' else [])
      in \<lparr>ffmpeg = d @ [''bin'', ''ffmpeg'' @ ext], ffprobe = d @ [''bin'', ''ffprobe'' @ ext]\<rparr>)"

text \<open>The directory entries that a scan enumerates.\<close>

definition entries :: "tree \<Rightarrow> bool \<Rightarrow> path list" where
  "entries t include_subfolders = (if include_subfolders then rglob t else iterdir t)"

section \<open>Concrete inputs\<close>

definition host_bundled :: host where
  "host_bundled =
     \<lparr>platform = ''win32'',
      path_exists = (\<lambda>p. p = [''app'', ''bin'', ''ffmpeg.exe'']
                          \<or> p = [''app'', ''bin'', ''ffprobe.exe'']),
      which = (\<lambda>c. None)\<rparr>"

definition host_system :: host where
  "host_system =
     \<lparr>platform = ''linux'',
      path_exists = (\<lambda>p. p = [''app'', ''bin'', ''ffmpeg'']),
      which = (\<lambda>c. if c = ''ffmpeg'' then Some ''/usr/bin/ffmpeg''
                     else if c = ''ffprobe'' then Some ''/usr/bin/ffprobe'' else None)\<rparr>"

definition host_partial :: host where
  "host_partial =
     \<lparr>platform = ''linux'',
      path_exists = (\<lambda>p. p = [''app'', ''bin'', ''ffmpeg'']),
      which = (\<lambda>c. if c = ''ffprobe'' then Some ''/usr/bin/ffprobe'' else None)\<rparr>"

definition tree_a :: tree where
  "tree_a =
     \<lparr>source_exists = True,
      rglob = [[''src'', ''sub'', ''b.MP4''], [''src'', ''sub''], [''src'', ''a.mp4''],
               [''src'', ''note.txt'']],
      iterdir = [[''src'', ''sub''], [''src'', ''a.mp4''], [''src'', ''note.txt'']],
      is_file = (\<lambda>p. p \<noteq> [''src'', ''sub''])\<rparr>"

definition tree_b :: tree where
  "tree_b =
     \<lparr>source_exists = True,
      rglob = [[''src'', ''a.mp4''], [''src'', ''note.txt''], [''src'', ''sub''],
               [''src'', ''sub'', ''b.MP4'']],
      iterdir = [[''src'', ''note.txt''], [''src'', ''a.mp4''], [''src'', ''sub'']],
      is_file = (\<lambda>p. p \<noteq> [''src'', ''sub''])\<rparr>"

text \<open>Actions that only start the prober or write a log line.\<close>

definition quiet :: "action list \<Rightarrow> bool" where
  "quiet acts = (\<forall>a \<in> set acts. (\<exists>c. a = RunFfprobe c) \<or> (\<exists>t. a = Emit (Log t)))"


text \<open>Inputs of the worker: float formatting on the few values used, one job, four copies of
  it, and surroundings in which the probe reports ten seconds and the trimmer succeeds,
  is killed by a cancellation, fails, or is never reached.\<close>

definition F0 :: float_ops where
  "F0 = \<lparr>fmt_g = (\<lambda>x. if x = 2 then ''2'' else ''0''),
          fmt_2f = (\<lambda>x. if x = 2 then ''2.00'' else if x = 10 then ''10.00''
                         else if x = 3 / 2 then ''1.50'' else ''0.00''),
          fmt_str = (\<lambda>x. if x = 2 then ''2.0'' else ''0.0''),
          float_of = (\<lambda>t. if t = ''10.0'' then Some 10 else if t = ''1.5'' then Some (3 / 2)
                           else if t = ''2.0'' then Some 2 else if t = ''2.02'' then Some (101 / 50)
                           else None)\<rparr>"

definition job_a :: FileJob where
  "job_a = \<lparr>input_path = [''src'', ''a.mp4''], output_path = [''out'', ''a_trim2s.mp4''],
            display_name = ''a.mp4''\<rparr>"

definition W4 :: Worker where
  "W4 = \<lparr>jobs = [job_a, job_a, job_a, job_a], trim_seconds = 2, overwrite = False,
          ffmpeg_paths = \<lparr>ffmpeg = [''bin'', ''ffmpeg''], ffprobe = [''bin'', ''ffprobe'']\<rparr>\<rparr>"

definition world_ok :: job_world where
  "world_ok = \<lparr>probe_run = ProbeCompleted (''10.0'' @ [CHR 0x0A]), mkdir_error = None,
               output_exists = False, trim_run = TrimCompleted 0 [], cancel_at = NoCancel\<rparr>"

definition world_killed :: job_world where
  "world_killed = world_ok\<lparr>trim_run := TrimCompleted (- 15) [], cancel_at := CancelInFlight\<rparr>"

definition env_cancel2 :: "nat \<Rightarrow> job_world" where
  "env_cancel2 i = (if i = 2 then world_killed else world_ok)"


definition env_ok :: "nat \<Rightarrow> job_world" where
  "env_ok i = world_ok"



definition world_short :: job_world where
  "world_short = world_ok\<lparr>probe_run := ProbeCompleted ''1.5''\<rparr>"






section \<open>Output names never collide with the input\<close>

lemma stem_suffix: "stem p @ suffix p = name p"
  by (simp add: stem_def suffix_def Let_def)

text \<open>
  C3. For every input path and every trim offset (positive or not), the name built
  without overwrite differs from the input file name, and the name built with overwrite
  is the input file name.
\<close>

theorem build_output_name_no_collision:
  "build_output_name F p t False \<noteq> name p \<and> build_output_name F p t True = name p"
proof -
  have "length (build_output_name F p t False)
          = length (name p) + length (''_trim'' @ fmt_g F t @ ''s'')"
    using stem_suffix [of p, symmetric] by (simp add: build_output_name_def Let_def)
  then have "build_output_name F p t False \<noteq> name p" by auto
  then show ?thesis by (simp add: build_output_name_def)
qed

section \<open>Locating the toolchain\<close>

lemma local_ffmpeg:
  "local_binary h d ''ffmpeg''
     = d @ [''bin'', if startswith (platform h) ''win'' then ''ffmpeg.exe'' else ''ffmpeg'']"
  by (simp add: local_binary_def join_def with_suffix_def name_def stem_def Let_def rfind_def
        butlast_append)

lemma local_ffprobe:
  "local_binary h d ''ffprobe''
     = d @ [''bin'', if startswith (platform h) ''win'' then ''ffprobe.exe'' else ''ffprobe'']"
  by (simp add: local_binary_def join_def with_suffix_def name_def stem_def Let_def rfind_def
        butlast_append)

text \<open>
  C6. When both bundled binaries exist, \<open>locate_ffmpeg\<close> returns the bundled pair.
  Otherwise it returns the pair that the search path gives, and only when both names
  resolve there (to a non-empty text); in every other case it returns nothing. A result is
  always one of these two complete pairs.
\<close>

theorem locate_ffmpeg_pair:
  "(path_exists h (ffmpeg (bundled h d)) \<and> path_exists h (ffprobe (bundled h d))
      \<longrightarrow> locate_ffmpeg h d = Some (bundled h d))
   \<and> (\<not> (path_exists h (ffmpeg (bundled h d)) \<and> path_exists h (ffprobe (bundled h d)))
      \<longrightarrow> locate_ffmpeg h d =
          (case (which h ''ffmpeg'', which h ''ffprobe'') of
             (Some a, Some b) \<Rightarrow>
               if a \<noteq> [] \<and> b \<noteq> [] then Some \<lparr>ffmpeg = Path a, ffprobe = Path b\<rparr> else None
           | _ \<Rightarrow> None))"
  by (auto simp: locate_ffmpeg_def local_ffmpeg local_ffprobe bundled_def Let_def truthy_def
           split: option.splits)

theorem locate_ffmpeg_pair_witness:
  "locate_ffmpeg host_bundled [''app'']
     = Some \<lparr>ffmpeg = [''app'', ''bin'', ''ffmpeg.exe''],
             ffprobe = [''app'', ''bin'', ''ffprobe.exe'']\<rparr>
   \<and> locate_ffmpeg host_system [''app'']
     = Some \<lparr>ffmpeg = [''/usr/bin/ffmpeg''], ffprobe = [''/usr/bin/ffprobe'']\<rparr>
   \<and> locate_ffmpeg host_partial [''app''] = None"
  using locate_ffmpeg_pair [of host_bundled "[''app'']"]
    locate_ffmpeg_pair [of host_system "[''app'']"]
    locate_ffmpeg_pair [of host_partial "[''app'']"]
  by (simp add: host_bundled_def host_system_def host_partial_def bundled_def startswith_def
        Path_def Let_def)

section \<open>Discovery is deterministic\<close>

lemma collect_filter: "collect isf ps files = files @ filter (\<lambda>p. isf p \<and> is_mp4 p) ps"
  by (induction ps arbitrary: files) auto

lemma sort_mset_eq: "mset xs = mset ys \<Longrightarrow> sort xs = sort (ys :: path list)"
  by (metis properties_for_sort mset_sort sorted_sort)

text \<open>
  C8. Two scans of an unchanged tree (the same entries, in whatever order the operating
  system enumerates them, and the same regular files) give the same list. The list is
  sorted in the order of paths and holds exactly the enumerated regular files whose
  suffix, in lower case, is \<^verbatim>\<open>.mp4\<close>.
\<close>

theorem scan_files_deterministic:
  assumes "source_exists t1 = source_exists t2"
    and "mset (rglob t1) = mset (rglob t2)"
    and "mset (iterdir t1) = mset (iterdir t2)"
    and "is_file t1 = is_file t2"
  shows "scan_files t1 r = scan_files t2 r
    \<and> (\<forall>fs. scan_files t1 r = Some fs \<longrightarrow>
          sorted fs
          \<and> mset fs
              = {#p \<in># mset (entries t1 r). is_file t1 p \<and> lower (suffix p) = ''.mp4''#})"
proof -
  let ?keep = "\<lambda>p. is_file t1 p \<and> is_mp4 p"
  have "mset (filter ?keep (entries t1 r)) = mset (filter ?keep (entries t2 r))"
    using assms(2,3) by (simp add: entries_def)
  then have "sort (filter ?keep (entries t1 r)) = sort (filter ?keep (entries t2 r))"
    by (rule sort_mset_eq)
  then have same: "scan_files t1 r = scan_files t2 r"
    using assms(1,4) by (simp add: scan_files_def collect_filter entries_def)
  have "sorted fs
        \<and> mset fs = {#p \<in># mset (entries t1 r). is_file t1 p \<and> lower (suffix p) = ''.mp4''#}"
    if "scan_files t1 r = Some fs" for fs
    using that
    by (auto simp: scan_files_def collect_filter entries_def is_mp4_def split: if_splits)
  with same show ?thesis by blast
qed

theorem scan_files_deterministic_witness:
  "scan_files tree_a True = scan_files tree_b True
   \<and> scan_files tree_a True = Some [[''src'', ''a.mp4''], [''src'', ''sub'', ''b.MP4'']]
   \<and> sorted [[''src'', ''a.mp4''], [''src'', ''sub'', ''b.MP4'']]"
proof -
  have 1: "source_exists tree_a = source_exists tree_b" by (simp add: tree_a_def tree_b_def)
  have 2: "mset (rglob tree_a) = mset (rglob tree_b)" by (simp add: tree_a_def tree_b_def)
  have 3: "mset (iterdir tree_a) = mset (iterdir tree_b)" by (simp add: tree_a_def tree_b_def)
  have 4: "is_file tree_a = is_file tree_b" by (simp add: tree_a_def tree_b_def)
  have 5: "scan_files tree_a True = Some [[''src'', ''a.mp4''], [''src'', ''sub'', ''b.MP4'']]"
    by code_simp
  from scan_files_deterministic [OF 1 2 3 4, of True] 5 show ?thesis by simp
qed

section \<open>One job\<close>

lemma row_statuses_simps [simp]:
  "row_statuses [] r = []"
  "row_statuses (a # as) r = status_of r a @ row_statuses as r"
  "row_statuses (as @ bs) r = row_statuses as r @ row_statuses bs r"
  by (simp_all add: row_statuses_def)

lemma probe_duration_quiet: "quiet (fst (probe_duration F W inp w))"
  by (cases "probe_run w") (simp_all add: probe_duration_def quiet_def Let_def split: option.splits)

lemma quiet_row: "quiet acts \<Longrightarrow> row_statuses acts r = []"
  by (induction acts) (auto simp: quiet_def)

lemma quiet_filter: "quiet acts \<Longrightarrow> filter is_canceled acts = [] \<and> filter is_trim acts = []"
  by (induction acts) (auto simp: quiet_def)

lemma quiet_mem:
  "quiet acts \<Longrightarrow> Emit Finished \<notin> set acts \<and> Emit (Progress i st m) \<notin> set acts
     \<and> Mkdir p \<notin> set acts \<and> Terminate \<notin> set acts"
  by (auto simp: quiet_def)

lemma run_ffmpeg_OSError:
  "trim_run w = TrimOSError exc \<Longrightarrow>
     run_ffmpeg F W job w s = ([RunFfmpeg (ffmpeg_command F W job)], s, Inl (OSError exc))"
  by (simp add: run_ffmpeg_def)

lemma run_ffmpeg_Completed:
  "trim_run w = TrimCompleted rc err \<Longrightarrow>
     run_ffmpeg F W job w s =
       (RunFfmpeg (ffmpeg_command F W job) # (if cancel_at w = CancelInFlight then [Terminate] else []),
        s\<lparr>cancel_flag := cancel_flag s \<or> cancel_at w = CancelInFlight, process_running := False\<rparr>,
        Inr (rc, err))"
  by (simp add: run_ffmpeg_def cancel_def Let_def)

lemma trim_job_mkdir:
  "mkdir_error w = Some exc \<Longrightarrow>
     trim_job F W idx job w s = ([Mkdir (parent (output_path job))], s, Some (OSError exc))"
  by (simp add: trim_job_def)

lemma trim_job_exists:
  "mkdir_error w = None \<Longrightarrow> output_exists w \<Longrightarrow> \<not> overwrite W \<Longrightarrow>
     trim_job F W idx job w s =
       ([Mkdir (parent (output_path job)),
         Emit (Progress (idx - 1) ''Skipped'' exists_message),
         Emit (Log (skipping_text (output_path job) exists_message))], s, None)"
  by (simp add: trim_job_def)

lemma trim_job_spawn:
  "mkdir_error w = None \<Longrightarrow> \<not> (output_exists w \<and> \<not> overwrite W) \<Longrightarrow>
   trim_run w = TrimOSError exc \<Longrightarrow>
     trim_job F W idx job w s =
       ([Mkdir (parent (output_path job)), RunFfmpeg (ffmpeg_command F W job)], s, Some (OSError exc))"
  by (simp add: trim_job_def run_ffmpeg_OSError)

lemma trim_job_failed:
  "mkdir_error w = None \<Longrightarrow> \<not> (output_exists w \<and> \<not> overwrite W) \<Longrightarrow>
   trim_run w = TrimCompleted rc err \<Longrightarrow> rc \<noteq> 0 \<Longrightarrow>
     trim_job F W idx job w s =
       (Mkdir (parent (output_path job)) # RunFfmpeg (ffmpeg_command F W job)
          # (if cancel_at w = CancelInFlight then [Terminate] else [])
          @ [Emit (Progress (idx - 1) ''Failed'' (error_text err)),
             Emit (Log (failed_text (input_path job) (error_text err)))],
        s\<lparr>cancel_flag := cancel_flag s \<or> cancel_at w = CancelInFlight, process_running := False\<rparr>,
        None)"
  by (simp add: trim_job_def run_ffmpeg_Completed)

lemma trim_job_done:
  "mkdir_error w = None \<Longrightarrow> \<not> (output_exists w \<and> \<not> overwrite W) \<Longrightarrow>
   trim_run w = TrimCompleted 0 err \<Longrightarrow>
     trim_job F W idx job w s =
       (Mkdir (parent (output_path job)) # RunFfmpeg (ffmpeg_command F W job)
          # (if cancel_at w = CancelInFlight then [Terminate] else [])
          @ (if strip err \<noteq> [] then [Emit (Log (strip err))] else [])
          @ [Emit (Progress (idx - 1) ''Done'' [])],
        s\<lparr>cancel_flag := cancel_flag s \<or> cancel_at w = CancelInFlight, process_running := False\<rparr>,
        None)"
  by (simp add: trim_job_def run_ffmpeg_Completed)

lemma trim_job_cases:
  obtains
    (mkdir) exc where "mkdir_error w = Some exc"
  | (exists) "mkdir_error w = None" "output_exists w" "\<not> overwrite W"
  | (spawn) exc where "mkdir_error w = None" "\<not> (output_exists w \<and> \<not> overwrite W)"
      "trim_run w = TrimOSError exc"
  | (failed) rc err where "mkdir_error w = None" "\<not> (output_exists w \<and> \<not> overwrite W)"
      "trim_run w = TrimCompleted rc err" "rc \<noteq> 0"
  | (finished) err where "mkdir_error w = None" "\<not> (output_exists w \<and> \<not> overwrite W)"
      "trim_run w = TrimCompleted 0 err"
proof (cases "mkdir_error w")
  case None
  show ?thesis
  proof (cases "output_exists w \<and> \<not> overwrite W")
    case True
    with None exists show ?thesis by blast
  next
    case False
    show ?thesis
    proof (cases "trim_run w")
      case (TrimOSError exc)
      with None False spawn show ?thesis by blast
    next
      case (TrimCompleted rc err)
      with None False failed finished show ?thesis by (cases "rc = 0") blast+
    qed
  qed
next
  case (Some exc)
  with mkdir show ?thesis by blast
qed


lemma trim_job_statuses:
  "(snd (snd (trim_job F W idx job w s)) = None \<longrightarrow>
      (\<exists>t \<in> terminal. \<forall>r. row_statuses (fst (trim_job F W idx job w s)) r
                              = (if r = idx - 1 then [t] else [])))
   \<and> (snd (snd (trim_job F W idx job w s)) \<noteq> None \<longrightarrow>
      (\<forall>r. row_statuses (fst (trim_job F W idx job w s)) r = []))"
  by (cases rule: trim_job_cases [where w = w and W = W])
     (simp_all add: trim_job_mkdir trim_job_exists trim_job_spawn trim_job_failed trim_job_done
        terminal_def)

lemma trim_job_canceled: "filter is_canceled (fst (trim_job F W idx job w s)) = []"
  by (cases rule: trim_job_cases [where w = w and W = W])
     (simp_all add: trim_job_mkdir trim_job_exists trim_job_spawn trim_job_failed trim_job_done)

lemma trim_job_finished: "Emit Finished \<notin> set (fst (trim_job F W idx job w s))"
  by (cases rule: trim_job_cases [where w = w and W = W])
     (simp_all add: trim_job_mkdir trim_job_exists trim_job_spawn trim_job_failed trim_job_done)

lemma trim_job_state:
  "(cancel_flag (fst (snd (trim_job F W idx job w s))) \<longrightarrow> cancel_flag s \<or> cancel_at w \<noteq> NoCancel)
   \<and> (cancel_flag s \<longrightarrow> cancel_flag (fst (snd (trim_job F W idx job w s))))
   \<and> (process_running (fst (snd (trim_job F W idx job w s))) \<longrightarrow> process_running s)"
  by (cases rule: trim_job_cases [where w = w and W = W])
     (auto simp add: trim_job_mkdir trim_job_exists trim_job_spawn trim_job_failed trim_job_done)

lemma process_job_short:
  "probe_duration F W (input_path job) w = (pa, Some d) \<Longrightarrow> d \<le> trim_seconds W + 1 / 100 \<Longrightarrow>
     process_job F W idx job w s =
       (pa @ [Emit (Progress (idx - 1) ''Skipped'' (short_message F d (trim_seconds W))),
              Emit (Log (skipping_text (input_path job) (short_message F d (trim_seconds W))))],
        s, None)"
  by (simp add: process_job_def)

lemma process_job_long:
  "probe_duration F W (input_path job) w = (pa, Some d) \<Longrightarrow> \<not> d \<le> trim_seconds W + 1 / 100 \<Longrightarrow>
     process_job F W idx job w s =
       (pa @ fst (trim_job F W idx job w s), snd (trim_job F W idx job w s))"
  by (simp add: process_job_def split: prod.splits)

lemma process_job_unknown:
  "probe_duration F W (input_path job) w = (pa, None) \<Longrightarrow>
     process_job F W idx job w s =
       (pa @ Emit (Log (warning_text (input_path job))) # fst (trim_job F W idx job w s),
        snd (trim_job F W idx job w s))"
  by (simp add: process_job_def split: prod.splits)

lemma process_job_cases:
  obtains
    (short) pa d where "probe_duration F W (input_path job) w = (pa, Some d)"
      "d \<le> trim_seconds W + 1 / 100" "quiet pa"
  | (long) pa d where "probe_duration F W (input_path job) w = (pa, Some d)"
      "\<not> d \<le> trim_seconds W + 1 / 100" "quiet pa"
  | (unknown) pa where "probe_duration F W (input_path job) w = (pa, None)" "quiet pa"
proof -
  obtain pa dur where p: "probe_duration F W (input_path job) w = (pa, dur)"
    by (cases "probe_duration F W (input_path job) w")
  have q: "quiet pa" using probe_duration_quiet [of F W "input_path job" w] p by simp
  show ?thesis
  proof (cases dur)
    case None
    with p q unknown show ?thesis by blast
  next
    case (Some d)
    with p q short long show ?thesis by (cases "d \<le> trim_seconds W + 1 / 100") blast+
  qed
qed

lemma process_job_statuses:
  "(snd (snd (process_job F W idx job w s)) = None \<longrightarrow>
      (\<exists>t \<in> terminal. \<forall>r. row_statuses (fst (process_job F W idx job w s)) r
                              = (if r = idx - 1 then [t] else [])))
   \<and> (snd (snd (process_job F W idx job w s)) \<noteq> None \<longrightarrow>
      (\<forall>r. row_statuses (fst (process_job F W idx job w s)) r = []))"
proof (cases rule: process_job_cases [where F = F and W = W and job = job and w = w])
  case (short pa d)
  then show ?thesis by (simp add: process_job_short quiet_row terminal_def)
next
  case (long pa d)
  then show ?thesis
    using trim_job_statuses [of F W idx job w s] by (simp add: process_job_long quiet_row)
next
  case (unknown pa)
  then show ?thesis
    using trim_job_statuses [of F W idx job w s] by (simp add: process_job_unknown quiet_row)
qed

lemma process_job_canceled: "filter is_canceled (fst (process_job F W idx job w s)) = []"
  by (cases rule: process_job_cases [where F = F and W = W and job = job and w = w])
     (simp_all add: process_job_short process_job_long process_job_unknown quiet_filter
        trim_job_canceled)

lemma process_job_finished: "Emit Finished \<notin> set (fst (process_job F W idx job w s))"
  by (cases rule: process_job_cases [where F = F and W = W and job = job and w = w])
     (simp_all add: process_job_short process_job_long process_job_unknown quiet_mem
        trim_job_finished)

lemma process_job_state:
  "(cancel_flag (fst (snd (process_job F W idx job w s))) \<longrightarrow> cancel_flag s \<or> cancel_at w \<noteq> NoCancel)
   \<and> (cancel_flag s \<longrightarrow> cancel_flag (fst (snd (process_job F W idx job w s))))
   \<and> (process_running (fst (snd (process_job F W idx job w s))) \<longrightarrow> process_running s)"
  using trim_job_state [of F W idx job w s]
  by (cases rule: process_job_cases [where F = F and W = W and job = job and w = w])
     (simp_all add: process_job_short process_job_long process_job_unknown)

lemma idle_cancel_flag: "cancel_flag (idle_cancel w s) = (cancel_flag s \<or> cancel_at w \<noteq> NoCancel)"
  by (simp add: idle_cancel_def cancel_def)

lemma trim_job_indep:
  "fst (trim_job F W idx job w s) = fst (trim_job F W idx job w s')
   \<and> snd (snd (trim_job F W idx job w s)) = snd (snd (trim_job F W idx job w s'))"
  by (cases rule: trim_job_cases [where w = w and W = W])
     (simp_all add: trim_job_mkdir trim_job_exists trim_job_spawn trim_job_failed trim_job_done)

lemma process_job_indep:
  "fst (process_job F W idx job w s) = fst (process_job F W idx job w s')
   \<and> snd (snd (process_job F W idx job w s)) = snd (snd (process_job F W idx job w s'))"
  using trim_job_indep [of F W idx job w s s']
  by (cases rule: process_job_cases [where F = F and W = W and job = job and w = w])
     (simp_all add: process_job_short process_job_long process_job_unknown)

section \<open>The loop\<close>

lemma run_jobs_canceled:
  "cancel_flag s \<Longrightarrow>
     run_jobs F W tot idx (job # rest) env s =
       ([Emit (Progress (idx - 1) ''Canceled'' ''Canceled by user'')], s, None)"
  by simp

lemma run_jobs_raise:
  "\<not> cancel_flag s \<Longrightarrow> snd (snd (process_job F W idx job (env idx) s)) = Some e \<Longrightarrow>
     run_jobs F W tot idx (job # rest) env s =
       (Emit (Overall idx tot) # Emit (Progress (idx - 1) ''Processing'' [])
          # fst (process_job F W idx job (env idx) s),
        fst (snd (process_job F W idx job (env idx) s)), Some e)"
  by (cases "process_job F W idx job (env idx) s") simp

lemma run_jobs_step:
  "\<not> cancel_flag s \<Longrightarrow> snd (snd (process_job F W idx job (env idx) s)) = None \<Longrightarrow>
     run_jobs F W tot idx (job # rest) env s =
       (Emit (Overall idx tot) # Emit (Progress (idx - 1) ''Processing'' [])
          # fst (process_job F W idx job (env idx) s)
          @ fst (run_jobs F W tot (Suc idx) rest env
                   (idle_cancel (env idx) (fst (snd (process_job F W idx job (env idx) s))))),
        snd (run_jobs F W tot (Suc idx) rest env
               (idle_cancel (env idx) (fst (snd (process_job F W idx job (env idx) s))))))"
  by (cases "process_job F W idx job (env idx) s") (simp add: Let_def split: prod.splits)

lemma next_flag:
  "\<not> cancel_flag s \<Longrightarrow>
     cancel_flag (idle_cancel w (fst (snd (process_job F W idx job w s)))) = (cancel_at w \<noteq> NoCancel)"
  using process_job_state [of F W idx job w s] by (auto simp: idle_cancel_flag)

declare run_jobs.simps(2) [simp del]

lemma run_jobs_rows_outside:
  "r < i \<or> i + length js \<le> r \<Longrightarrow> row_statuses (fst (run_jobs F W tot (Suc i) js env s)) r = []"
proof (induction js arbitrary: i s)
  case Nil
  then show ?case by simp
next
  case (Cons job rest)
  let ?p = "process_job F W (Suc i) job (env (Suc i)) s"
  have ri: "r \<noteq> i" using Cons.prems by auto
  show ?case
  proof (cases "cancel_flag s")
    case True
    then show ?thesis using ri by (simp add: run_jobs_canceled)
  next
    case False
    show ?thesis
    proof (cases "snd (snd ?p)")
      case None
      have rest: "row_statuses (fst (run_jobs F W tot (Suc (Suc i)) rest env s')) r = []" for s'
        using Cons.prems by (intro Cons.IH) auto
      have "row_statuses (fst ?p) r = []"
        using process_job_statuses [of F W "Suc i" job "env (Suc i)" s] None ri by auto
      then show ?thesis using False None ri rest by (simp add: run_jobs_step)
    next
      case (Some e)
      have "row_statuses (fst ?p) r = []"
        using process_job_statuses [of F W "Suc i" job "env (Suc i)" s] Some by auto
      then show ?thesis using False Some ri by (simp add: run_jobs_raise)
    qed
  qed
qed

lemma run_jobs_finished: "Emit Finished \<notin> set (fst (run_jobs F W tot idx js env s))"
proof (induction js arbitrary: idx s)
  case Nil
  then show ?case by simp
next
  case (Cons job rest)
  let ?p = "process_job F W idx job (env idx) s"
  show ?case
  proof (cases "cancel_flag s")
    case True
    then show ?thesis by (simp add: run_jobs_canceled)
  next
    case False
    show ?thesis
    proof (cases "snd (snd ?p)")
      case None
      then show ?thesis using False Cons.IH process_job_finished [of F W idx job "env idx" s]
        by (simp add: run_jobs_step)
    next
      case (Some e)
      then show ?thesis using False process_job_finished [of F W idx job "env idx" s]
        by (simp add: run_jobs_raise)
    qed
  qed
qed

lemma run_jobs_canceled_last:
  "filter is_canceled (fst (run_jobs F W tot idx js env s)) = []
   \<or> (\<exists>pre c. fst (run_jobs F W tot idx js env s) = pre @ [c] \<and> is_canceled c
          \<and> filter is_canceled pre = [] \<and> snd (snd (run_jobs F W tot idx js env s)) = None)"
proof (induction js arbitrary: idx s)
  case Nil
  then show ?case by simp
next
  case (Cons job rest)
  let ?p = "process_job F W idx job (env idx) s"
  show ?case
  proof (cases "cancel_flag s")
    case True
    then show ?thesis by (simp add: run_jobs_canceled)
  next
    case False
    show ?thesis
    proof (cases "snd (snd ?p)")
      case None
      let ?r = "run_jobs F W tot (Suc idx) rest env (idle_cancel (env idx) (fst (snd ?p)))"
      let ?h = "Emit (Overall idx tot) # Emit (Progress (idx - 1) ''Processing'' []) # fst ?p"
      have eq: "run_jobs F W tot idx (job # rest) env s = (?h @ fst ?r, snd ?r)"
        using False None by (simp add: run_jobs_step)
      have h: "filter is_canceled ?h = []" by (simp add: process_job_canceled)
      from Cons.IH [of "Suc idx" "idle_cancel (env idx) (fst (snd ?p))"]
      consider "filter is_canceled (fst ?r) = []"
        | pre c where "fst ?r = pre @ [c]" "is_canceled c" "filter is_canceled pre = []"
            "snd (snd ?r) = None"
        by blast
      then show ?thesis
      proof cases
        case 1
        then show ?thesis using eq h by simp
      next
        case 2
        then have "fst (run_jobs F W tot idx (job # rest) env s) = (?h @ pre) @ [c]"
          "filter is_canceled (?h @ pre) = []"
          using eq h by simp_all
        then show ?thesis using 2(2,4) eq by (metis snd_conv)
      qed
    next
      case (Some e)
      then show ?thesis using False by (simp add: run_jobs_raise process_job_canceled)
    qed
  qed
qed

lemma run_jobs_no_request:
  "\<not> cancel_flag s \<Longrightarrow> (\<forall>j. i \<le> j \<and> j < i + length js \<longrightarrow> cancel_at (env j) = NoCancel) \<Longrightarrow>
     filter is_canceled (fst (run_jobs F W tot i js env s)) = []"
proof (induction js arbitrary: i s)
  case Nil
  then show ?case by simp
next
  case (Cons job rest)
  let ?p = "process_job F W i job (env i) s"
  show ?case
  proof (cases "snd (snd ?p)")
    case None
    have "cancel_at (env i) = NoCancel" using Cons.prems(2) by simp
    then have "\<not> cancel_flag (idle_cancel (env i) (fst (snd ?p)))"
      using next_flag [of s "env i" F W i job] Cons.prems(1) by simp
    then have "filter is_canceled (fst (run_jobs F W tot (Suc i) rest env
                 (idle_cancel (env i) (fst (snd ?p))))) = []"
      using Cons.prems(2) by (intro Cons.IH) auto
    then show ?thesis using Cons.prems(1) None
      by (simp add: run_jobs_step process_job_canceled)
  next
    case (Some e)
    then show ?thesis using Cons.prems(1) by (simp add: run_jobs_raise process_job_canceled)
  qed
qed

section \<open>The table\<close>

lemma deliver_length: "length (deliver a tbl) = length tbl"
  by (cases "(a, tbl)" rule: deliver.cases) (simp_all add: update_progress_def)

lemma deliver_nth:
  "r < length tbl \<Longrightarrow> deliver a tbl ! r = last (tbl ! r # status_of r a)"
  by (cases "(a, tbl)" rule: deliver.cases) (auto simp: update_progress_def nth_list_update)

lemma fold_deliver_nth:
  "r < length tbl \<Longrightarrow> fold deliver acts tbl ! r = last (tbl ! r # row_statuses acts r)"
proof (induction acts arbitrary: tbl)
  case Nil
  then show ?case by simp
next
  case (Cons a acts)
  have "fold deliver acts (deliver a tbl) ! r = last (deliver a tbl ! r # row_statuses acts r)"
    using Cons.prems by (intro Cons.IH) (simp add: deliver_length)
  then show ?case using Cons.prems by (simp add: deliver_nth)
qed

lemma table_after_nth:
  "r < n \<Longrightarrow> table_after n acts ! r = last (''Pending'' # row_statuses acts r)"
  by (simp add: table_after_def fold_deliver_nth)

lemma run_jobs_upto:
  assumes "\<not> cancel_flag s"
    and "snd (snd (run_jobs F W tot (Suc i) js env s)) = None"
    and "i \<le> k" and "k < i + length js"
    and "\<forall>j. i \<le> j \<and> j < k \<longrightarrow> cancel_at (env (Suc j)) = NoCancel"
    and "cancel_at (env (Suc k)) \<noteq> NoCancel"
  shows "(\<forall>r. i \<le> r \<and> r \<le> k \<longrightarrow>
            snd (snd (process_job F W (Suc r) (js ! (r - i)) (env (Suc r)) s0)) = None
            \<and> set (fst (process_job F W (Suc r) (js ! (r - i)) (env (Suc r)) s0))
                \<subseteq> set (fst (run_jobs F W tot (Suc i) js env s))
            \<and> row_statuses (fst (run_jobs F W tot (Suc i) js env s)) r
                = ''Processing''
                  # row_statuses (fst (process_job F W (Suc r) (js ! (r - i)) (env (Suc r)) s0)) r)
       \<and> (Suc k < i + length js \<longrightarrow>
            row_statuses (fst (run_jobs F W tot (Suc i) js env s)) (Suc k) = [''Canceled''])
       \<and> (\<forall>r. Suc k < r \<longrightarrow> row_statuses (fst (run_jobs F W tot (Suc i) js env s)) r = [])"
  using assms
proof (induction js arbitrary: i s)
  case Nil
  then show ?case by simp
next
  case (Cons job rest)
  let ?p = "process_job F W (Suc i) job (env (Suc i)) s"
  let ?q = "process_job F W (Suc i) job (env (Suc i)) s0"
  let ?s2 = "idle_cancel (env (Suc i)) (fst (snd ?p))"
  let ?r = "run_jobs F W tot (Suc (Suc i)) rest env ?s2"
  let ?acts = "fst (run_jobs F W tot (Suc i) (job # rest) env s)"
  have ok: "snd (snd ?p) = None"
  proof (cases "snd (snd ?p)")
    case (Some e)
    then show ?thesis using Cons.prems(1,2) by (simp add: run_jobs_raise)
  qed simp
  have eq: "run_jobs F W tot (Suc i) (job # rest) env s
              = (Emit (Overall (Suc i) tot) # Emit (Progress i ''Processing'' []) # fst ?p @ fst ?r,
                 snd ?r)"
    using Cons.prems(1) ok by (simp add: run_jobs_step)
  have pq: "fst ?p = fst ?q" "snd (snd ?q) = None"
    using process_job_indep [of F W "Suc i" job "env (Suc i)" s s0] ok by simp_all
  obtain t where t: "\<And>r. row_statuses (fst ?p) r = (if r = i then [t] else [])"
    using process_job_statuses [of F W "Suc i" job "env (Suc i)" s] ok by auto
  have rows: "row_statuses ?acts r
                = (if r = i then [''Processing''] else []) @ (if r = i then [t] else [])
                  @ row_statuses (fst ?r) r" for r
    using eq t by simp
  have below: "row_statuses (fst ?r) i = []"
    by (rule run_jobs_rows_outside) simp
  have first: "snd (snd ?q) = None \<and> set (fst ?q) \<subseteq> set ?acts
                 \<and> row_statuses ?acts i = ''Processing'' # row_statuses (fst ?q) i"
    using pq eq rows [of i] below t [of i] by auto
  have flag: "cancel_flag ?s2 = (cancel_at (env (Suc i)) \<noteq> NoCancel)"
    using next_flag [OF Cons.prems(1)] .
  show ?case
  proof (cases "i = k")
    case True
    then have c: "cancel_flag ?s2" using flag Cons.prems(6) by simp
    have r: "fst ?r = (if rest = [] then []
                       else [Emit (Progress (Suc i) ''Canceled'' ''Canceled by user'')])"
      using c by (cases rest) (simp_all add: run_jobs_canceled)
    have "\<forall>r. i \<le> r \<and> r \<le> k \<longrightarrow> r = i" using True by simp
    then show ?thesis using first rows r True by auto
  next
    case False
    then have lt: "Suc i \<le> k" using Cons.prems(3) by simp
    have nc: "\<not> cancel_flag ?s2" using flag Cons.prems(5) Cons.prems(3) False by simp
    have rn: "snd (snd ?r) = None" using eq Cons.prems(2) by simp
    have IH: "(\<forall>r. Suc i \<le> r \<and> r \<le> k \<longrightarrow>
            snd (snd (process_job F W (Suc r) (rest ! (r - Suc i)) (env (Suc r)) s0)) = None
            \<and> set (fst (process_job F W (Suc r) (rest ! (r - Suc i)) (env (Suc r)) s0))
                \<subseteq> set (fst ?r)
            \<and> row_statuses (fst ?r) r
                = ''Processing''
                  # row_statuses (fst (process_job F W (Suc r) (rest ! (r - Suc i)) (env (Suc r)) s0)) r)
       \<and> (Suc k < Suc i + length rest \<longrightarrow> row_statuses (fst ?r) (Suc k) = [''Canceled''])
       \<and> (\<forall>r. Suc k < r \<longrightarrow> row_statuses (fst ?r) r = [])"
      using Cons.prems(4,5,6) lt by (intro Cons.IH [OF nc rn]) auto
    have sub: "set (fst ?r) \<subseteq> set ?acts" using eq by auto
    have nth: "(job # rest) ! (r - i) = rest ! (r - Suc i)" if "Suc i \<le> r" for r
      using that by (simp add: Suc_diff_le)
    have part1: "snd (snd (process_job F W (Suc r) ((job # rest) ! (r - i)) (env (Suc r)) s0)) = None
            \<and> set (fst (process_job F W (Suc r) ((job # rest) ! (r - i)) (env (Suc r)) s0))
                \<subseteq> set ?acts
            \<and> row_statuses ?acts r
                = ''Processing''
                  # row_statuses (fst (process_job F W (Suc r) ((job # rest) ! (r - i)) (env (Suc r)) s0)) r"
      if "i \<le> r" "r \<le> k" for r
    proof (cases "r = i")
      case True
      then show ?thesis using first by simp
    next
      case False
      then have "Suc i \<le> r" using that by simp
      then show ?thesis using IH that(2) sub rows [of r] False nth [of r] by auto
    qed
    have part2: "Suc k < i + length (job # rest) \<longrightarrow> row_statuses ?acts (Suc k) = [''Canceled'']"
      using IH rows [of "Suc k"] lt by auto
    have part3: "\<forall>r. Suc k < r \<longrightarrow> row_statuses ?acts r = []"
      using IH rows lt by auto
    show ?thesis using part1 part2 part3 by blast
  qed
qed

section \<open>A whole run\<close>

lemma run_rows: "row_statuses (fst (run F W env s)) r
   = row_statuses (fst (run_jobs F W (length (jobs W)) 1 (jobs W) env s)) r"
  by (cases "run_jobs F W (length (jobs W)) 1 (jobs W) env s")
     (simp add: run_def Let_def split: option.splits)

lemma run_set: "set (fst (run_jobs F W (length (jobs W)) 1 (jobs W) env s)) \<subseteq> set (fst (run F W env s))"
  by (cases "run_jobs F W (length (jobs W)) 1 (jobs W) env s")
     (auto simp add: run_def Let_def split: option.splits)

lemma run_error: "snd (snd (run F W env s)) = snd (snd (run_jobs F W (length (jobs W)) 1 (jobs W) env s))"
  by (cases "run_jobs F W (length (jobs W)) 1 (jobs W) env s")
     (simp add: run_def Let_def split: option.splits)

lemma run_ok:
  "snd (snd (run F W env s)) = None \<Longrightarrow>
     fst (run F W env s) = fst (run_jobs F W (length (jobs W)) 1 (jobs W) env s)
        @ [Emit (Overall (length (jobs W)) (length (jobs W))), Emit Finished]"
  by (cases "run_jobs F W (length (jobs W)) 1 (jobs W) env s")
     (simp add: run_def Let_def split: option.splits)

text \<open>
  C7. A run that leaves the loop without an exception, by exhausting the job list or by
  the break on cancellation, ends with the aggregate progress signal \<open>(total, total)\<close>
  followed by the completion signal, and emits the completion signal nowhere else.
\<close>

theorem run_signals_completion_once:
  assumes "snd (snd (run F W env s)) = None"
  shows "\<exists>pre. fst (run F W env s)
                 = pre @ [Emit (Overall (length (jobs W)) (length (jobs W))), Emit Finished]
               \<and> Emit Finished \<notin> set pre"
  using run_ok [OF assms] run_jobs_finished by blast

theorem run_signals_completion_once_witness:
  "snd (snd (run F0 W4 env_ok init_state)) = None
   \<and> snd (snd (run F0 W4 env_cancel2 init_state)) = None
   \<and> (\<exists>pre. fst (run F0 W4 env_ok init_state) = pre @ [Emit (Overall 4 4), Emit Finished]
              \<and> Emit Finished \<notin> set pre)
   \<and> (\<exists>pre. fst (run F0 W4 env_cancel2 init_state) = pre @ [Emit (Overall 4 4), Emit Finished]
              \<and> Emit Finished \<notin> set pre)"
proof -
  have a: "snd (snd (run F0 W4 env_ok init_state)) = None" by code_simp
  have b: "snd (snd (run F0 W4 env_cancel2 init_state)) = None" by code_simp
  have n: "length (jobs W4) = 4" by (simp add: W4_def)
  show ?thesis
    using a b run_signals_completion_once [OF a] run_signals_completion_once [OF b]
    by (simp add: n)
qed

lemma drop_to_canceled:
  "filter is_canceled pre = [] \<Longrightarrow> is_canceled c \<Longrightarrow>
     dropWhile (\<lambda>x. \<not> is_canceled x) (pre @ c # post) = c # post"
  by (simp add: dropWhile_append2 filter_empty_conv)

lemma unique_canceled:
  assumes "pre @ c' # post = p @ c # fin" and "is_canceled c'" and "is_canceled c"
    and "filter is_canceled p = []" and "filter is_canceled fin = []"
  shows "post = fin"
proof -
  have "filter is_canceled (pre @ c' # post) = [c]"
    using assms by simp
  then have "filter is_canceled pre = []"
    using assms(2) by (auto simp: append_eq_Cons_conv)
  then have "dropWhile (\<lambda>x. \<not> is_canceled x) (pre @ c' # post) = c' # post"
    using assms(2) by (rule drop_to_canceled)
  moreover have "dropWhile (\<lambda>x. \<not> is_canceled x) (p @ c # fin) = c # fin"
    using assms(4,3) by (rule drop_to_canceled)
  ultimately show ?thesis using assms(1) by simp
qed

text \<open>
  C10. A run emits at most one \<^verbatim>\<open>Canceled\<close> signal. After a \<^verbatim>\<open>Canceled\<close> signal the loop
  is left at once: only the final progress signal and the completion signal follow. A
  run that starts with the flag unset and sees no cancellation request emits no
  \<^verbatim>\<open>Canceled\<close> signal.
\<close>

theorem at_most_one_canceled:
  "length (filter is_canceled (fst (run F W env s))) \<le> 1
   \<and> (\<forall>pre c post. fst (run F W env s) = pre @ c # post \<and> is_canceled c \<longrightarrow>
         post = [Emit (Overall (length (jobs W)) (length (jobs W))), Emit Finished])
   \<and> (\<not> cancel_flag s \<and> (\<forall>j. 1 \<le> j \<and> j \<le> length (jobs W) \<longrightarrow> cancel_at (env j) = NoCancel)
        \<longrightarrow> filter is_canceled (fst (run F W env s)) = [])"
proof -
  let ?n = "length (jobs W)"
  let ?l = "run_jobs F W ?n 1 (jobs W) env s"
  let ?fin = "[Emit (Overall ?n ?n), Emit Finished]"
  have shape: "fst (run F W env s) = fst ?l \<or> fst (run F W env s) = fst ?l @ ?fin"
    by (cases ?l) (simp add: run_def Let_def split: option.splits)
  have same: "filter is_canceled (fst (run F W env s)) = filter is_canceled (fst ?l)"
    using shape by auto
  from run_jobs_canceled_last [of F W ?n 1 "jobs W" env s]
  consider (none) "filter is_canceled (fst ?l) = []"
    | (one) p c where "fst ?l = p @ [c]" "is_canceled c" "filter is_canceled p = []"
        "snd (snd ?l) = None"
    by blast
  then have main: "length (filter is_canceled (fst (run F W env s))) \<le> 1
    \<and> (\<forall>pre c post. fst (run F W env s) = pre @ c # post \<and> is_canceled c \<longrightarrow> post = ?fin)"
  proof cases
    case none
    then have "filter is_canceled (fst (run F W env s)) = []" using same by simp
    then have "\<not> is_canceled c" if "fst (run F W env s) = pre @ c # post" for pre c post
      using that by (auto simp: filter_empty_conv)
    then show ?thesis using none same by auto
  next
    case one
    have r: "fst (run F W env s) = p @ c # ?fin"
      using run_ok [of F W env s] one(1,4) by (simp add: run_error)
    have "post = ?fin" if "fst (run F W env s) = pre @ c' # post" "is_canceled c'" for pre c' post
    proof -
      have e: "pre @ c' # post = p @ c # ?fin" using that(1) r by simp
      show ?thesis by (rule unique_canceled [OF e that(2) one(2,3)]) simp
    qed
    then show ?thesis using same one by auto
  qed
  have "filter is_canceled (fst ?l) = []"
    if "\<not> cancel_flag s" "\<forall>j. 1 \<le> j \<and> j \<le> ?n \<longrightarrow> cancel_at (env j) = NoCancel"
    using that by (intro run_jobs_no_request) auto
  then have "\<not> cancel_flag s \<and> (\<forall>j. 1 \<le> j \<and> j \<le> ?n \<longrightarrow> cancel_at (env j) = NoCancel)
        \<longrightarrow> filter is_canceled (fst (run F W env s)) = []"
    using same by simp
  with main show ?thesis by blast
qed

theorem at_most_one_canceled_witness:
  "filter is_canceled (fst (run F0 W4 env_ok init_state)) = []
   \<and> length (filter is_canceled (fst (run F0 W4 env_cancel2 init_state))) \<le> 1
   \<and> drop 15 (fst (run F0 W4 env_cancel2 init_state)) = [Emit (Overall 4 4), Emit Finished]"
proof -
  let ?ev = "fst (run F0 W4 env_cancel2 init_state)"
  let ?c = "Emit (Progress 2 ''Canceled'' ''Canceled by user'')"
  have n: "length (jobs W4) = 4" by (simp add: W4_def)
  have e: "?ev = take 14 ?ev @ ?c # drop 15 ?ev" by code_simp
  have c: "is_canceled ?c" by simp
  have f: "\<not> cancel_flag init_state" by (simp add: init_state_def)
  have q: "\<forall>j. 1 \<le> j \<and> j \<le> length (jobs W4) \<longrightarrow> cancel_at (env_ok j) = NoCancel"
    by (simp add: env_ok_def world_ok_def)
  from at_most_one_canceled [of F0 W4 env_ok init_state] f q
  have 1: "filter is_canceled (fst (run F0 W4 env_ok init_state)) = []" by blast
  from at_most_one_canceled [of F0 W4 env_cancel2 init_state] e c
  have 2: "length (filter is_canceled ?ev) \<le> 1"
    and 3: "drop 15 ?ev = [Emit (Overall (length (jobs W4)) (length (jobs W4))), Emit Finished]"
    by blast+
  show ?thesis using 1 2 3 by (simp add: n)
qed

section \<open>What one job does\<close>





lemma trim_job_reached:
  assumes "filter is_trim (fst (trim_job F W idx job w s)) \<noteq> []
           \<or> Terminate \<in> set (fst (trim_job F W idx job w s))"
  shows "mkdir_error w = None \<and> \<not> (output_exists w \<and> \<not> overwrite W)"
  using assms
  by (cases rule: trim_job_cases [where w = w and W = W])
     (simp_all add: trim_job_mkdir trim_job_exists trim_job_spawn trim_job_failed trim_job_done)


lemma process_job_failed:
  assumes "filter is_trim (fst (process_job F W idx job w s)) \<noteq> []
           \<or> Terminate \<in> set (fst (process_job F W idx job w s))"
    and "trim_run w = TrimCompleted rc err" and "rc \<noteq> 0"
  shows "\<exists>pre. quiet pre \<and>
           process_job F W idx job w s =
             (pre @ Mkdir (parent (output_path job)) # RunFfmpeg (ffmpeg_command F W job)
                # (if cancel_at w = CancelInFlight then [Terminate] else [])
                @ [Emit (Progress (idx - 1) ''Failed'' (error_text err)),
                   Emit (Log (failed_text (input_path job) (error_text err)))],
              s\<lparr>cancel_flag := cancel_flag s \<or> cancel_at w = CancelInFlight,
                process_running := False\<rparr>,
              None)"
proof (cases rule: process_job_cases [where F = F and W = W and job = job and w = w])
  case (short pa d)
  then have False using assms(1) quiet_filter [of pa] quiet_mem [of pa]
    by (simp add: process_job_short)
  then show ?thesis ..
next
  case (long pa d)
  then have "filter is_trim (fst (trim_job F W idx job w s)) \<noteq> []
             \<or> Terminate \<in> set (fst (trim_job F W idx job w s))"
    using assms(1) quiet_filter [of pa] quiet_mem [of pa] by (auto simp add: process_job_long)
  from trim_job_reached [OF this] have r: "mkdir_error w = None" "\<not> (output_exists w \<and> \<not> overwrite W)"
    by simp_all
  show ?thesis
    using long(3) by (intro exI [of _ pa]) (simp add: process_job_long [OF long(1,2)]
        trim_job_failed [OF r assms(2,3)])
next
  case (unknown pa)
  then have "filter is_trim (fst (trim_job F W idx job w s)) \<noteq> []
             \<or> Terminate \<in> set (fst (trim_job F W idx job w s))"
    using assms(1) quiet_filter [of pa] quiet_mem [of pa] by (auto simp add: process_job_unknown)
  from trim_job_reached [OF this] have r: "mkdir_error w = None" "\<not> (output_exists w \<and> \<not> overwrite W)"
    by simp_all
  have q: "quiet (pa @ [Emit (Log (warning_text (input_path job)))])"
    using unknown(2) by (simp add: quiet_def)
  show ?thesis
    using q by (intro exI [of _ "pa @ [Emit (Log (warning_text (input_path job)))]"])
      (simp add: process_job_unknown [OF unknown(1)] trim_job_failed [OF r assms(2,3)])
qed


section \<open>Short inputs are skipped\<close>





section \<open>A failed probe does not stop the job\<close>





section \<open>A failing trimmer does not stop the run\<close>



section \<open>Cancellation\<close>

lemma row_last_terminal:
  "t \<in> terminal \<Longrightarrow> last [''Pending'', ''Processing'', t] \<in> terminal
     \<and> ''Canceled'' \<notin> set [''Processing'', t]"
  by (auto simp: terminal_def)

text \<open>
  C1, as stated, fails: in a run of four jobs a cancellation arrives while the trimmer of
  job 2 runs; job 3, which was never started, is marked \<^verbatim>\<open>Canceled\<close>, and only job 4
  stays \<^verbatim>\<open>Pending\<close>.
\<close>

theorem cancel_during_job_counterexample:
  "cancel_at (env_cancel2 2) = CancelInFlight
   \<and> table_after 4 (fst (run F0 W4 env_cancel2 init_state))
       = [''Done'', ''Failed'', ''Canceled'', ''Pending'']"
  by code_simp

text \<open>
  C1, amended. In a run that starts with the flag unset and raises no exception, let the
  first cancellation request arrive during the iteration of job \<open>k\<close>. Then jobs
  \<open>1..k\<close> end in a terminal status and are never marked \<^verbatim>\<open>Canceled\<close>; job
  \<open>k + 1\<close>, if there is one, gets \<^verbatim>\<open>Canceled\<close> as its only signal, so it was not
  started; every later job gets no signal and stays \<^verbatim>\<open>Pending\<close>.
\<close>

theorem cancel_marks_next_job:
  assumes "\<not> cancel_flag s"
    and "snd (snd (run F W env s)) = None"
    and "1 \<le> k" and "k \<le> length (jobs W)"
    and "\<forall>j. 1 \<le> j \<and> j < k \<longrightarrow> cancel_at (env j) = NoCancel"
    and "cancel_at (env k) \<noteq> NoCancel"
  shows "(\<forall>j. 1 \<le> j \<and> j \<le> k \<longrightarrow>
            table_after (length (jobs W)) (fst (run F W env s)) ! (j - 1) \<in> terminal
            \<and> ''Canceled'' \<notin> set (row_statuses (fst (run F W env s)) (j - 1)))
       \<and> (k < length (jobs W) \<longrightarrow>
            table_after (length (jobs W)) (fst (run F W env s)) ! k = ''Canceled''
            \<and> row_statuses (fst (run F W env s)) k = [''Canceled''])
       \<and> (\<forall>j. k + 1 < j \<and> j \<le> length (jobs W) \<longrightarrow>
            table_after (length (jobs W)) (fst (run F W env s)) ! (j - 1) = ''Pending''
            \<and> row_statuses (fst (run F W env s)) (j - 1) = [])"
proof -
  let ?n = "length (jobs W)"
  let ?ev = "fst (run F W env s)"
  let ?l = "fst (run_jobs F W ?n (Suc 0) (jobs W) env s)"
  have ok: "snd (snd (run_jobs F W ?n (Suc 0) (jobs W) env s)) = None"
    using assms(2) by (simp add: run_error)
  have k: "Suc (k - 1) = k" using assms(3) by simp
  have upto:
    "(\<forall>r. 0 \<le> r \<and> r \<le> k - 1 \<longrightarrow>
        snd (snd (process_job F W (Suc r) (jobs W ! (r - 0)) (env (Suc r)) s)) = None
        \<and> set (fst (process_job F W (Suc r) (jobs W ! (r - 0)) (env (Suc r)) s)) \<subseteq> set ?l
        \<and> row_statuses ?l r
            = ''Processing'' # row_statuses (fst (process_job F W (Suc r) (jobs W ! (r - 0)) (env (Suc r)) s)) r)
     \<and> (Suc (k - 1) < 0 + ?n \<longrightarrow> row_statuses ?l (Suc (k - 1)) = [''Canceled''])
     \<and> (\<forall>r. Suc (k - 1) < r \<longrightarrow> row_statuses ?l r = [])"
    using assms(3,4,5,6) k by (intro run_jobs_upto [OF assms(1) ok]) auto
  have rows: "row_statuses ?ev r = row_statuses ?l r" for r
    using run_rows [of F W env s r] by simp
  have started: "\<exists>t \<in> terminal. row_statuses ?ev r = [''Processing'', t]" if "r \<le> k - 1" for r
  proof -
    let ?p = "process_job F W (Suc r) (jobs W ! r) (env (Suc r)) s"
    have "snd (snd ?p) = None" "row_statuses ?l r = ''Processing'' # row_statuses (fst ?p) r"
      using upto that by auto
    then show ?thesis using process_job_statuses [of F W "Suc r" "jobs W ! r" "env (Suc r)" s] rows
      by auto
  qed
  have part1: "table_after ?n ?ev ! (j - 1) \<in> terminal
               \<and> ''Canceled'' \<notin> set (row_statuses ?ev (j - 1))" if "1 \<le> j" "j \<le> k" for j
  proof -
    have "j - 1 \<le> k - 1" using that by simp
    from started [OF this]
    obtain t where t: "t \<in> terminal" "row_statuses ?ev (j - 1) = [''Processing'', t]"
      by blast
    have "j - 1 < ?n" using that assms(4) by simp
    then show ?thesis using t row_last_terminal [OF t(1)] by (simp add: table_after_nth)
  qed
  have part2: "table_after ?n ?ev ! k = ''Canceled'' \<and> row_statuses ?ev k = [''Canceled'']"
    if "k < ?n"
    using upto that k rows by (simp add: table_after_nth)
  have part3: "table_after ?n ?ev ! (j - 1) = ''Pending'' \<and> row_statuses ?ev (j - 1) = []"
    if "k + 1 < j" "j \<le> ?n" for j
  proof -
    have "row_statuses ?ev (j - 1) = []" using upto that(1) k rows by auto
    moreover have "j - 1 < ?n" using that by simp
    ultimately show ?thesis by (simp add: table_after_nth)
  qed
  show ?thesis using part1 part2 part3 by blast
qed

theorem cancel_marks_next_job_witness:
  "table_after 4 (fst (run F0 W4 env_cancel2 init_state)) ! 0 \<in> terminal
   \<and> table_after 4 (fst (run F0 W4 env_cancel2 init_state)) ! 1 \<in> terminal
   \<and> table_after 4 (fst (run F0 W4 env_cancel2 init_state)) ! 2 = ''Canceled''
   \<and> table_after 4 (fst (run F0 W4 env_cancel2 init_state)) ! 3 = ''Pending''"
proof -
  have f: "\<not> cancel_flag init_state" by (simp add: init_state_def)
  have r: "snd (snd (run F0 W4 env_cancel2 init_state)) = None" by code_simp
  have n: "length (jobs W4) = 4" by (simp add: W4_def)
  have k1: "1 \<le> (2::nat)" by simp
  have k2: "2 \<le> length (jobs W4)" by (simp add: n)
  have q: "\<forall>j. 1 \<le> j \<and> j < 2 \<longrightarrow> cancel_at (env_cancel2 j) = NoCancel"
    by (simp add: env_cancel2_def world_ok_def)
  have c: "cancel_at (env_cancel2 2) \<noteq> NoCancel"
    by (simp add: env_cancel2_def world_killed_def world_ok_def)
  note t = cancel_marks_next_job [OF f r k1 k2 q c, unfolded n]
  have a: "table_after 4 (fst (run F0 W4 env_cancel2 init_state)) ! (1 - 1) \<in> terminal"
    using t [THEN conjunct1, rule_format, of 1] by simp
  have b: "table_after 4 (fst (run F0 W4 env_cancel2 init_state)) ! (2 - 1) \<in> terminal"
    using t [THEN conjunct1, rule_format, of 2] by simp
  have d: "table_after 4 (fst (run F0 W4 env_cancel2 init_state)) ! 2 = ''Canceled''"
    using t [THEN conjunct2, THEN conjunct1] by simp
  have e: "table_after 4 (fst (run F0 W4 env_cancel2 init_state)) ! (4 - 1) = ''Pending''"
    using t [THEN conjunct2, THEN conjunct2, rule_format, of 4] by simp
  show ?thesis using a b d e by simp
qed

text \<open>
  C9. In a run that starts with the flag unset and raises no exception, let the first
  cancellation arrive while the trimmer of job \<open>k\<close> runs, so that the process is
  terminated, and let the process report a nonzero return code. Then job \<open>k\<close> is
  reported \<^verbatim>\<open>Failed\<close> with the text of the process: its signals are \<^verbatim>\<open>Processing\<close> and
  \<^verbatim>\<open>Failed\<close>, never \<^verbatim>\<open>Canceled\<close>.
\<close>

theorem interrupted_job_is_failed:
  assumes "\<not> cancel_flag s"
    and "snd (snd (run F W env s)) = None"
    and "1 \<le> k" and "k \<le> length (jobs W)"
    and "\<forall>j. 1 \<le> j \<and> j < k \<longrightarrow> cancel_at (env j) = NoCancel"
    and "Terminate \<in> set (fst (process_job F W k (jobs W ! (k - 1)) (env k) s))"
    and "trim_run (env k) = TrimCompleted rc err" and "rc \<noteq> 0"
  shows "Terminate \<in> set (fst (run F W env s))
       \<and> Emit (Progress (k - 1) ''Failed'' (error_text err)) \<in> set (fst (run F W env s))
       \<and> row_statuses (fst (run F W env s)) (k - 1) = [''Processing'', ''Failed'']
       \<and> table_after (length (jobs W)) (fst (run F W env s)) ! (k - 1) = ''Failed''"
proof -
  let ?n = "length (jobs W)"
  let ?ev = "fst (run F W env s)"
  let ?l = "fst (run_jobs F W ?n (Suc 0) (jobs W) env s)"
  let ?p = "process_job F W k (jobs W ! (k - 1)) (env k) s"
  have k: "Suc (k - 1) = k" using assms(3) by simp
  obtain pre where pre: "quiet pre"
    "?p = (pre @ Mkdir (parent (output_path (jobs W ! (k - 1))))
             # RunFfmpeg (ffmpeg_command F W (jobs W ! (k - 1)))
             # (if cancel_at (env k) = CancelInFlight then [Terminate] else [])
             @ [Emit (Progress (k - 1) ''Failed'' (error_text err)),
                Emit (Log (failed_text (input_path (jobs W ! (k - 1))) (error_text err)))],
           s\<lparr>cancel_flag := cancel_flag s \<or> cancel_at (env k) = CancelInFlight,
             process_running := False\<rparr>,
           None)"
    using process_job_failed [OF disjI2 [OF assms(6)] assms(7,8)] by blast
  have inflight: "cancel_at (env k) = CancelInFlight"
    using assms(6) pre quiet_mem [OF pre(1)] by (auto split: if_splits)
  have job_rows: "row_statuses (fst ?p) (k - 1) = [''Failed'']"
    using pre by (simp add: quiet_row)
  have job_mem: "Terminate \<in> set (fst ?p)"
    "Emit (Progress (k - 1) ''Failed'' (error_text err)) \<in> set (fst ?p)"
    using assms(6) pre by simp_all
  have ok: "snd (snd (run_jobs F W ?n (Suc 0) (jobs W) env s)) = None"
    using assms(2) by (simp add: run_error)
  have upto:
    "(\<forall>r. 0 \<le> r \<and> r \<le> k - 1 \<longrightarrow>
        snd (snd (process_job F W (Suc r) (jobs W ! (r - 0)) (env (Suc r)) s)) = None
        \<and> set (fst (process_job F W (Suc r) (jobs W ! (r - 0)) (env (Suc r)) s)) \<subseteq> set ?l
        \<and> row_statuses ?l r
            = ''Processing'' # row_statuses (fst (process_job F W (Suc r) (jobs W ! (r - 0)) (env (Suc r)) s)) r)
     \<and> (Suc (k - 1) < 0 + ?n \<longrightarrow> row_statuses ?l (Suc (k - 1)) = [''Canceled''])
     \<and> (\<forall>r. Suc (k - 1) < r \<longrightarrow> row_statuses ?l r = [])"
    using assms(3,4,5) inflight k by (intro run_jobs_upto [OF assms(1) ok]) auto
  then have here: "set (fst ?p) \<subseteq> set ?l"
    "row_statuses ?l (k - 1) = ''Processing'' # row_statuses (fst ?p) (k - 1)"
    using upto [THEN conjunct1, rule_format, of "k - 1"] k by simp_all
  have sub: "set (fst ?p) \<subseteq> set ?ev" using here(1) run_set [of F W env s] by auto
  have rows: "row_statuses ?ev (k - 1) = [''Processing'', ''Failed'']"
    using here(2) job_rows run_rows [of F W env s "k - 1"] by simp
  have "k - 1 < ?n" using assms(3,4) by simp
  then have "table_after ?n ?ev ! (k - 1) = ''Failed''"
    using rows by (simp add: table_after_nth)
  then show ?thesis using sub job_mem rows by auto
qed

theorem interrupted_job_is_failed_witness:
  "Terminate \<in> set (fst (run F0 W4 env_cancel2 init_state))
   \<and> Emit (Progress 1 ''Failed'' ''Unknown ffmpeg error'') \<in> set (fst (run F0 W4 env_cancel2 init_state))
   \<and> row_statuses (fst (run F0 W4 env_cancel2 init_state)) 1 = [''Processing'', ''Failed'']
   \<and> table_after 4 (fst (run F0 W4 env_cancel2 init_state)) ! 1 = ''Failed''"
proof -
  have f: "\<not> cancel_flag init_state" by (simp add: init_state_def)
  have r: "snd (snd (run F0 W4 env_cancel2 init_state)) = None" by code_simp
  have n: "length (jobs W4) = 4" by (simp add: W4_def)
  have k1: "1 \<le> (2::nat)" by simp
  have k2: "2 \<le> length (jobs W4)" by (simp add: n)
  have q: "\<forall>j. 1 \<le> j \<and> j < 2 \<longrightarrow> cancel_at (env_cancel2 j) = NoCancel"
    by (simp add: env_cancel2_def world_ok_def)
  have t: "Terminate \<in> set (fst (process_job F0 W4 2 (jobs W4 ! (2 - 1)) (env_cancel2 2) init_state))"
    by code_simp
  have c: "trim_run (env_cancel2 2) = TrimCompleted (- 15) []"
    by (simp add: env_cancel2_def world_killed_def world_ok_def)
  have z: "(- 15 :: int) \<noteq> 0" by simp
  have e: "error_text [] = ''Unknown ffmpeg error''" by (simp add: error_text_def strip_def)
  show ?thesis
    using interrupted_job_is_failed [OF f r k1 k2 q t c z] by (simp add: n e)
qed

end
